theory Spec2Isabelle
  imports Complex_Main
begin

unbundle bit_operations_syntax

section \<open>Text: characters, whitespace, case, substrings\<close>

text \<open>
  A Python \<open>str\<close> is modelled as a \<open>string\<close>: the list of its characters, each an
  8-bit code point. The transcription process prints ASCII text and terminal control
  sequences, and every concrete input used below is ASCII. On ASCII text \<open>strip\<close>,
  \<open>upper\<close> and \<open>contains\<close> are Python's \<open>str.strip()\<close>, \<open>str.upper()\<close> and \<open>in\<close>;
  Python's case mapping of characters outside ASCII is not modelled (\<open>upper\<close> keeps
  them), and code points from 256 on are outside the model.
\<close>

definition ESC :: char where
  "ESC = CHR 0x1B"

definition CR :: char where
  "CR = CHR 0x0D"

definition is_space :: "char \<Rightarrow> bool" where
  \<comment> \<open>The characters \<open>str.strip()\<close> removes: those with \<open>str.isspace()\<close>, below 256.\<close>
  "is_space c = (c \<in> set [CHR 0x09, CHR 0x0A, CHR 0x0B, CHR 0x0C, CHR 0x0D,
                            CHR 0x1C, CHR 0x1D, CHR 0x1E, CHR 0x1F, CHR 0x20,
                            CHR 0x85, CHR 0xA0])"

definition strip :: "string \<Rightarrow> string" where
  \<comment> \<open>\<open>s.strip()\<close>: leading and trailing whitespace removed.\<close>
  "strip s = rev (dropWhile is_space (rev (dropWhile is_space s)))"

definition upper_char :: "char \<Rightarrow> char" where
  \<comment> \<open>\<open>a\<close>..\<open>z\<close> become \<open>A\<close>..\<open>Z\<close>; every other character is kept.\<close>
  "upper_char c =
     (let n = (of_char c :: nat) in if 97 \<le> n \<and> n \<le> 122 then char_of (n - 32) else c)"

definition upper :: "string \<Rightarrow> string" where
  "upper s = map upper_char s"

fun starts_with :: "string \<Rightarrow> string \<Rightarrow> bool" where
  "starts_with [] s = True"
| "starts_with (p # ps) [] = False"
| "starts_with (p # ps) (c # cs) = (p = c \<and> starts_with ps cs)"

fun contains :: "string \<Rightarrow> string \<Rightarrow> bool" where
  \<comment> \<open>\<open>sub in s\<close> on strings: \<open>sub\<close> occurs in \<open>s\<close> as a contiguous substring.\<close>
  "contains sub [] = (sub = [])"
| "contains sub (c # cs) = (starts_with sub (c # cs) \<or> contains sub cs)"

section \<open>The regular expression of \<open>strip_ansi_codes\<close>\<close>

text \<open>
  \<open>re.sub\<close> uses a backtracking matcher: alternatives are tried left to right, an
  optional part is tried before it is skipped (greedy), and the first way that succeeds
  is the match. \<open>rmatch r s\<close> lists, in that order, what remains of \<open>s\<close> after each way
  of matching \<open>r\<close> at the start of \<open>s\<close>; the match taken is the head of the list.
\<close>

datatype regex =
    Lit char
  | OneOf "char list"
  | Seq regex regex
  | Alt regex regex
  | Opt regex

fun rmatch :: "regex \<Rightarrow> string \<Rightarrow> string list" where
  "rmatch (Lit c) s = (case s of [] \<Rightarrow> [] | x # xs \<Rightarrow> if x = c then [xs] else [])"
| "rmatch (OneOf cs) s = (case s of [] \<Rightarrow> [] | x # xs \<Rightarrow> if x \<in> set cs then [xs] else [])"
| "rmatch (Seq a b) s = concat (map (rmatch b) (rmatch a s))"
| "rmatch (Alt a b) s = rmatch a s @ rmatch b s"
| "rmatch (Opt a) s = rmatch a s @ [s]"

definition digit :: regex where
  \<comment> \<open>\<open>[0-9]\<close>\<close>
  "digit = OneOf ''0123456789''"

definition digits_1_2 :: regex where
  \<comment> \<open>\<open>[0-9]{1,2}\<close>: one digit, then greedily a second.\<close>
  "digits_1_2 = Seq digit (Opt digit)"

definition ansi_pattern :: regex where
  \<comment> \<open>\<open>\r|\x1b\[([0-9]{1,2}(;[0-9]{1,2})?)?[mK]\<close>\<close>
  "ansi_pattern =
     Alt (Lit CR)
         (Seq (Lit ESC) (Seq (Lit (CHR ''['')) (Seq
            (Opt (Seq digits_1_2 (Opt (Seq (Lit (CHR '';'')) digits_1_2))))
            (OneOf ''mK''))))"

lemma rmatch_suffix: "r \<in> set (rmatch re s) \<Longrightarrow> \<exists>p. s = p @ r"
proof (induction re arbitrary: s r)
  case (Seq a b)
  then obtain m where m: "m \<in> set (rmatch a s)" and r: "r \<in> set (rmatch b m)"
    by auto
  from Seq.IH(1)[OF m] obtain p where "s = p @ m" by blast
  moreover from Seq.IH(2)[OF r] obtain q where "m = q @ r" by blast
  ultimately have "s = (p @ q) @ r" by simp
  then show ?case by blast
next
  case (Opt a)
  then show ?case by (auto intro: exI[of _ "[]"])
qed (auto split: list.splits if_splits)

lemma ansi_pattern_consumes:
  assumes "r \<in> set (rmatch ansi_pattern s)"
  shows "length r < length s"
proof -
  from assms have "r \<in> set (rmatch (Lit CR) s) \<or>
      (\<exists>m. m \<in> set (rmatch (Lit ESC) s) \<and>
           r \<in> set (rmatch (Seq (Lit (CHR ''['')) (Seq
            (Opt (Seq digits_1_2 (Opt (Seq (Lit (CHR '';'')) digits_1_2))))
            (OneOf ''mK''))) m))"
    unfolding ansi_pattern_def by auto
  then show ?thesis
  proof
    assume "r \<in> set (rmatch (Lit CR) s)"
    then show ?thesis by (auto split: list.splits if_splits)
  next
    assume "\<exists>m. m \<in> set (rmatch (Lit ESC) s) \<and>
           r \<in> set (rmatch (Seq (Lit (CHR ''['')) (Seq
            (Opt (Seq digits_1_2 (Opt (Seq (Lit (CHR '';'')) digits_1_2))))
            (OneOf ''mK''))) m)"
    then obtain m where m: "m \<in> set (rmatch (Lit ESC) s)"
      and r: "r \<in> set (rmatch (Seq (Lit (CHR ''['')) (Seq
            (Opt (Seq digits_1_2 (Opt (Seq (Lit (CHR '';'')) digits_1_2))))
            (OneOf ''mK''))) m)"
      by blast
    from m have "length m < length s" by (auto split: list.splits if_splits)
    moreover from rmatch_suffix[OF r] have "length r \<le> length m" by auto
    ultimately show ?thesis by simp
  qed
qed

function strip_ansi_codes :: "string \<Rightarrow> string" where
  \<comment> \<open>\<open>re.sub(pattern, '', s)\<close>: scanning left to right, a match at the current position
      is dropped and the scan resumes after it; otherwise the character is kept.\<close>
  "strip_ansi_codes [] = []"
| "strip_ansi_codes (c # cs) =
     (case rmatch ansi_pattern (c # cs) of
        [] \<Rightarrow> c # strip_ansi_codes cs
      | r # _ \<Rightarrow> strip_ansi_codes r)"
  by pat_completeness auto
termination
proof (relation "measure length")
  show "wf (measure length)" by simp
next
  fix c :: char and cs :: string
  show "(cs, c # cs) \<in> measure length" by simp
next
  fix c :: char and cs r :: string and rs :: "string list"
  assume "rmatch ansi_pattern (c # cs) = r # rs"
  then have "r \<in> set (rmatch ansi_pattern (c # cs))" by simp
  from ansi_pattern_consumes[OF this] show "(r, c # cs) \<in> measure length"
    by simp
qed

section \<open>The script's state and its effects on the host\<close>

type_synonym position = real

record globals =
  g_process :: "nat option"  \<comment> \<open>\<open>None\<close>, or the \<open>Popen\<close> object, named by its pid\<close>
  g_speech_started :: bool
  g_commit_interval :: int
  g_iter_count :: int
  g_utterance_start_pos :: position
  g_is_recording :: bool

definition initial_globals :: globals where
  \<comment> \<open>The module-level assignments of the globals.\<close>
  "initial_globals =
     \<lparr>g_process = None, g_speech_started = False, g_commit_interval = 0,
      g_iter_count = 0, g_utterance_start_pos = 0, g_is_recording = False\<rparr>"

record config =
  WHISPER_DEVICE :: int
  WHISPER_EXECUTABLE :: string
  WHISPER_MODEL :: string
  LENGTH_MS :: int
  STEP_MS :: int

definition path_join :: "string \<Rightarrow> string \<Rightarrow> string" where
  \<comment> \<open>\<open>os.path.join(a, b)\<close> on macOS and Linux.\<close>
  "path_join a b =
     (if starts_with ''/'' b then b
      else if a = [] \<or> last a = CHR ''/'' then a @ b
      else a @ ''/'' @ b)"

definition source_config :: "string \<Rightarrow> config" where
  \<comment> \<open>The configuration constants of the script; \<open>home\<close> is \<open>os.path.expanduser('~')\<close>.\<close>
  "source_config home =
     \<lparr>WHISPER_DEVICE = 3,
      WHISPER_EXECUTABLE = path_join home ''shel/whisper.cpp/build/bin/whisper-stream'',
      WHISPER_MODEL = path_join home ''shel/whisper.cpp/models/ggml-base.en.bin'',
      LENGTH_MS = 10000,
      STEP_MS = 1000\<rparr>"

datatype effect =
    ShowConsoleMsg string
  | AddProjectMarker2 position string
      \<comment> \<open>\<open>RPR_AddProjectMarker2(0, False, position, 0, name, -1, 0)\<close>\<close>
  | Defer string
  | ShowMessageBox string string
  | Popen "string list"
  | Terminate nat

datatype error = ZeroDivisionError

definition error_text :: "error \<Rightarrow> string" where
  "error_text e = (case e of ZeroDivisionError \<Rightarrow> ''integer division or modulo by zero'')"

fun str_nat :: "nat \<Rightarrow> string" where
  "str_nat n =
     (if n < 10 then [char_of (48 + n)] else str_nat (n div 10) @ [char_of (48 + n mod 10)])"

definition str_int :: "int \<Rightarrow> string" where
  \<comment> \<open>\<open>str(i)\<close> of an integer.\<close>
  "str_int i = (if i < 0 then CHR ''-'' # str_nat (nat (- i)) else str_nat (nat i))"

fun join_spaces :: "string list \<Rightarrow> string" where
  \<comment> \<open>\<open>' '.join(xs)\<close>\<close>
  "join_spaces [] = []"
| "join_spaces [x] = x"
| "join_spaces (x # y # ys) = x @ '' '' @ join_spaces (y # ys)"

definition whisper_args :: "config \<Rightarrow> string list" where
  "whisper_args cfg =
     [''-m'', WHISPER_MODEL cfg,
      ''-c'', str_int (WHISPER_DEVICE cfg),
      ''-t'', ''8'',
      ''--length'', str_int (LENGTH_MS cfg),
      ''--step'', str_int (STEP_MS cfg)]"

definition log :: "string \<Rightarrow> effect list" where
  "log message = [ShowConsoleMsg (message @ [CHR 0x0A])]"

definition add_marker :: "string \<Rightarrow> position \<Rightarrow> effect list" where
  "add_marker text position =
     (let stripped_text = strip text
      in if stripped_text = [] then [] else [AddProjectMarker2 position stripped_text])"

section \<open>The polling step\<close>

definition no_speech_sentinels :: "string list" where
  "no_speech_sentinels = [''[BLANK AUDIO]'', ''[ SILENCE ]'', ''[BLANK_AUDIO]'', ''[SILENCE]'']"

definition clean_line :: "string \<Rightarrow> string" where
  \<comment> \<open>\<open>cleaned_line = strip_ansi_codes(line).strip()\<close>\<close>
  "clean_line line = strip (strip_ansi_codes line)"

datatype flow = Returned | FellThrough

text \<open>
  \<open>process_line\<close> is the body of \<open>if line:\<close> in \<open>poll_whisper_output\<close>, from the cleaning
  of the line to the commit. \<open>pos\<close> is what \<open>RPR_GetPlayPosition()\<close> returns in this call
  (the function reads it at most once). The result says whether the function executed
  its \<open>return\<close> statement or ran to the end of the block. The modulo raises for a zero
  divisor; Python's \<open>%\<close> and HOL's \<open>mod\<close> on \<open>int\<close> agree for every other divisor.
  \<open>g_iter_count is 0\<close> is an identity test against the shared small-integer object for
  zero, which CPython returns for every integer result equal to zero: it is modelled as
  equality.
\<close>

definition process_line :: "position \<Rightarrow> string \<Rightarrow> globals \<Rightarrow> error + flow \<times> globals \<times> effect list" where
  "process_line pos line g =
     (let cleaned_line = clean_line line in
      if \<not> g_speech_started g then
        if contains ''[Start speaking]'' cleaned_line then
          Inr (FellThrough,
               g\<lparr>g_speech_started := True, g_utterance_start_pos := pos\<rparr>,
               log ''Speech detected. Marker creation enabled.'')
        else Inr (FellThrough, g, [])
      else if cleaned_line \<noteq> [] then
        if upper cleaned_line \<in> set no_speech_sentinels then Inr (Returned, g, [])
        else if g_commit_interval g = 0 then Inl ZeroDivisionError
        else
          let g1 = g\<lparr>g_iter_count := (g_iter_count g + 1) mod g_commit_interval g\<rparr>;
              buffer_end = (g_iter_count g1 = 0)
          in if buffer_end then
               Inr (FellThrough,
                    g1\<lparr>g_utterance_start_pos := pos\<rparr>,
                    add_marker cleaned_line (g_utterance_start_pos g1))
             else Inr (FellThrough, g1, [])
      else Inr (FellThrough, g, []))"

datatype read_result = RaisesIOError | Line string

record tick =
  alive_at_entry :: bool   \<comment> \<open>\<open>g_process.poll() is None\<close> at the top of the function\<close>
  readline :: read_result  \<comment> \<open>\<open>g_process.stdout.readline()\<close>\<close>
  play_position :: position  \<comment> \<open>\<open>RPR_GetPlayPosition()\<close>\<close>
  alive_at_exit :: bool    \<comment> \<open>\<open>g_process.poll() is None\<close> at the bottom\<close>

definition rearm :: "tick \<Rightarrow> globals \<Rightarrow> effect list" where
  \<comment> \<open>The last statement of \<open>poll_whisper_output\<close>.\<close>
  "rearm t g =
     (if g_process g \<noteq> None \<and> alive_at_exit t then [Defer ''poll_whisper_output()''] else [])"

definition poll_whisper_output :: "tick \<Rightarrow> globals \<Rightarrow> error + globals \<times> effect list" where
  "poll_whisper_output t g =
     (if g_process g = None \<or> \<not> alive_at_entry t then Inr (g, [])
      else
        case readline t of
          RaisesIOError \<Rightarrow> Inr (g, rearm t g)
        | Line line \<Rightarrow>
            if line = [] then Inr (g, rearm t g)
            else
              case process_line (play_position t) line g of
                Inl e \<Rightarrow> Inl e
              | Inr (Returned, g', out) \<Rightarrow> Inr (g', out)
              | Inr (FellThrough, g', out) \<Rightarrow> Inr (g', out @ rearm t g'))"

section \<open>Starting and stopping the process\<close>

definition commit_interval :: "int \<Rightarrow> int \<Rightarrow> int" where
  \<comment> \<open>The value \<open>start_process\<close> assigns to \<open>g_commit_interval\<close>; \<open>//\<close> is floor division,
      as \<open>div\<close> on \<open>int\<close>.\<close>
  "commit_interval length_ms step_ms =
     (if step_ms > 0 then max 1 (length_ms div step_ms - 1) else 9)"

record start_env =
  in_reaper :: bool  \<comment> \<open>\<open>check_reaper_context()\<close>\<close>
  process_alive :: bool  \<comment> \<open>\<open>g_process.poll() is None\<close>, read when \<open>g_process\<close> is set\<close>
  executable_is_file :: bool  \<comment> \<open>\<open>os.path.isfile(WHISPER_EXECUTABLE)\<close>\<close>
  spawn :: "string + nat"  \<comment> \<open>\<open>subprocess.Popen\<close>: raises with a message, or the pid\<close>
  set_nonblocking :: "string option"  \<comment> \<open>the \<open>fcntl\<close> calls: raise with a message, or not\<close>
  first_tick :: tick  \<comment> \<open>what the first call of \<open>poll_whisper_output\<close> observes\<close>

definition start_failed :: "string \<Rightarrow> effect" where
  "start_failed e = ShowMessageBox (''Failed to start process: '' @ e) ''Script Error''"

definition start_process :: "config \<Rightarrow> start_env \<Rightarrow> globals \<Rightarrow> globals \<times> effect list" where
  "start_process cfg env g =
     (if \<not> in_reaper env then (g, [])
      else if g_process g \<noteq> None \<and> process_alive env then (g, [])
      else
        let out1 = log ''--- Starting Whisper-Stream to Markers Script ---'';
            g1 = g\<lparr>g_speech_started := False,
                   g_iter_count := 0,
                   g_utterance_start_pos := 0,
                   g_commit_interval := commit_interval (LENGTH_MS cfg) (STEP_MS cfg)\<rparr>
        in
          if \<not> executable_is_file env then
            (g1, out1 @ [ShowMessageBox ''Executable not found'' ''Script Error''])
          else
            let command = WHISPER_EXECUTABLE cfg # whisper_args cfg;
                out2 = out1 @ log (''Running command: '' @ join_spaces command)
            in
              case spawn env of
                Inl e \<Rightarrow> (g1\<lparr>g_process := None\<rparr>, out2 @ [start_failed e])
              | Inr pid \<Rightarrow>
                  let g2 = g1\<lparr>g_process := Some pid\<rparr>;
                      out3 = out2 @ [Popen command]
                  in
                    case set_nonblocking env of
                      Some e \<Rightarrow> (g2\<lparr>g_process := None\<rparr>, out3 @ [start_failed e])
                    | None \<Rightarrow>
                        let out4 = out3 @ log (''Process started (PID: '' @ str_nat pid
                                                 @ ''). Waiting for output...'')
                        in
                          case poll_whisper_output (first_tick env) g2 of
                            Inl e \<Rightarrow>
                              (g2\<lparr>g_process := None\<rparr>, out4 @ [start_failed (error_text e)])
                          | Inr (g3, out5) \<Rightarrow> (g3, out4 @ out5))"

text \<open>
  \<open>stop_process\<close> declares only \<open>g_process\<close> global. Its three assignments under the
  comment \<open># Reset globals\<close> therefore bind names local to the call, which are dropped
  when it returns; the model returns them beside the globals.
\<close>

record stop_locals =
  l_speech_started :: "bool option"
  l_iter_count :: "int option"
  l_utterance_start_pos :: "position option"

definition unbound :: stop_locals where
  "unbound = \<lparr>l_speech_started = None, l_iter_count = None, l_utterance_start_pos = None\<rparr>"

definition stop_process :: "bool \<Rightarrow> globals \<Rightarrow> globals \<times> stop_locals \<times> effect list" where
  \<comment> \<open>\<open>alive\<close> is \<open>g_process.poll() is None\<close>, read when \<open>g_process\<close> is set.\<close>
  "stop_process alive g =
     (case g_process g of
        None \<Rightarrow> (g, unbound, [])
      | Some pid \<Rightarrow>
          if alive then
            (g\<lparr>g_process := None\<rparr>,
             \<lparr>l_speech_started = Some False, l_iter_count = Some 0,
              l_utterance_start_pos = Some 0\<rparr>,
             log ''Stopping whisper-stream process...'' @ [Terminate pid])
          else (g, unbound, []))"

section \<open>The recording-state loop\<close>

record check_env =
  play_state :: int  \<comment> \<open>\<open>RPR_GetPlayState()\<close>\<close>
  on_start :: start_env
  alive_on_stop :: bool

definition check_recording_state :: "config \<Rightarrow> check_env \<Rightarrow> globals \<Rightarrow> globals \<times> effect list" where
  "check_recording_state cfg env g =
     (let is_currently_recording = (play_state env AND 4 \<noteq> 0) in
      if is_currently_recording \<and> \<not> g_is_recording g then
        let out1 = log ''Reaper recording started. Starting transcription...'';
            (g1, out2) = start_process cfg (on_start env) (g\<lparr>g_is_recording := True\<rparr>)
        in (g1, out1 @ out2 @ [Defer ''check_recording_state()''])
      else if \<not> is_currently_recording \<and> g_is_recording g then
        let out1 = log ''Reaper recording stopped. Stopping transcription...'';
            (g1, ls, out2) = stop_process (alive_on_stop env) (g\<lparr>g_is_recording := False\<rparr>)
        in (g1, out1 @ out2 @ log ''Script finished. Run action again to restart monitoring.'')
      else (g, [Defer ''check_recording_state()'']))"

definition reaper_atexit :: "bool \<Rightarrow> globals \<Rightarrow> globals \<times> effect list" where
  \<comment> \<open>\<open>__reaper_atexit\<close>\<close>
  "reaper_atexit alive g =
     (let (g1, ls, out) = stop_process alive g
      in (g1, log ''Script terminated. Cleaning up...'' @ out))"

section \<open>Runs\<close>

fun is_marker :: "effect \<Rightarrow> bool" where
  "is_marker (AddProjectMarker2 p n) = True"
| "is_marker e = False"

definition markers :: "effect list \<Rightarrow> effect list" where
  "markers out = filter is_marker out"

fun is_defer :: "effect \<Rightarrow> bool" where
  "is_defer (Defer c) = True"
| "is_defer e = False"

text \<open>
  \<open>feed_lines\<close> is the sequence of \<open>process_line\<close> calls that successive polls make on
  the lines they read, each with the play position of its own call; an exception ends it.
\<close>

fun feed_lines :: "(position \<times> string) list \<Rightarrow> globals \<Rightarrow> error + globals \<times> effect list" where
  "feed_lines [] g = Inr (g, [])"
| "feed_lines ((pos, line) # rest) g =
     (case process_line pos line g of
        Inl e \<Rightarrow> Inl e
      | Inr (f, g1, out1) \<Rightarrow>
          (case feed_lines rest g1 of
             Inl e \<Rightarrow> Inl e
           | Inr (g2, out2) \<Rightarrow> Inr (g2, out1 @ out2)))"

text \<open>
  The states the script can be in: the host may run any of its three entry points, in
  any order and with any observations of the outside world.
\<close>

inductive reachable :: "config \<Rightarrow> globals \<Rightarrow> bool" for cfg :: config where
  init: "reachable cfg initial_globals"
| check: "reachable cfg g \<Longrightarrow> reachable cfg (fst (check_recording_state cfg env g))"
| poll: "reachable cfg g \<Longrightarrow> poll_whisper_output t g = Inr (g1, out) \<Longrightarrow> reachable cfg g1"
| atexit: "reachable cfg g \<Longrightarrow> reachable cfg (fst (reaper_atexit alive g))"

section \<open>Predicates and sample inputs\<close>

definition accepted :: "string \<Rightarrow> bool" where
  \<comment> \<open>The line is counted once speech has started: its cleaned text is neither empty
      nor a no-speech sentinel.\<close>
  "accepted line =
     (clean_line line \<noteq> [] \<and> upper (clean_line line) \<notin> set no_speech_sentinels)"

fun escapes_complete :: "string \<Rightarrow> bool" where
  \<comment> \<open>Every ESC character of the text begins a sequence that the pattern matches.\<close>
  "escapes_complete [] = True"
| "escapes_complete (c # cs) =
     ((c = ESC \<longrightarrow> rmatch ansi_pattern (c # cs) \<noteq> []) \<and> escapes_complete cs)"

definition LF :: char where
  "LF = CHR 0x0A"

definition coloured_line :: string where
  "coloured_line = [ESC] @ ''[2K'' @ [CR] @ '' hello'' @ [ESC] @ ''[38;5m world'' @ [LF]"

definition blank_audio_line :: string where
  "blank_audio_line = [ESC] @ ''[2K'' @ [CR] @ '' [BLANK_AUDIO]'' @ [LF]"

definition accumulating :: globals where
  \<comment> \<open>A session in progress: process 77 runs, speech has started, two lines counted.\<close>
  "accumulating =
     \<lparr>g_process = Some 77, g_speech_started = True, g_commit_interval = 3,
      g_iter_count = 2, g_utterance_start_pos = 4, g_is_recording = True\<rparr>"

definition quiet_tick :: tick where
  "quiet_tick =
     \<lparr>alive_at_entry = True, readline = RaisesIOError, play_position = 0,
      alive_at_exit = True\<rparr>"

definition booting_env :: start_env where
  "booting_env =
     \<lparr>in_reaper = True, process_alive = False, executable_is_file = True,
      spawn = Inr 77, set_nonblocking = None, first_tick = quiet_tick\<rparr>"

definition zero_step_config :: config where
  "zero_step_config = (source_config ''/home/u'')\<lparr>STEP_MS := 0\<rparr>"

definition stop_env :: check_env where
  "stop_env = \<lparr>play_state = 1, on_start = booting_env, alive_on_stop = True\<rparr>"

definition fresh_window :: globals where
  \<comment> \<open>As \<open>accumulating\<close>, at the start of a buffer window.\<close>
  "fresh_window = accumulating\<lparr>g_iter_count := 0\<rparr>"

definition three_lines :: "(position \<times> string) list" where
  "three_lines =
     [(5, ''hello'' @ [LF]), (6, ''hello world'' @ [LF]), (7, ''hello world, friend'' @ [LF])]"

definition home_config :: config where
  "home_config = source_config ''/home/u''"

definition record_env :: check_env where
  "record_env = \<lparr>play_state = 5, on_start = booting_env, alive_on_stop = True\<rparr>"

definition session_started :: globals where
  "session_started =
     \<lparr>g_process = Some 77, g_speech_started = False, g_commit_interval = 9,
      g_iter_count = 0, g_utterance_start_pos = 0, g_is_recording = True\<rparr>"

definition listening :: globals where
  "listening =
     \<lparr>g_process = Some 77, g_speech_started = True, g_commit_interval = 9,
      g_iter_count = 1, g_utterance_start_pos = 2, g_is_recording = True\<rparr>"

definition line_tick :: "position \<Rightarrow> string \<Rightarrow> tick" where
  "line_tick pos line =
     \<lparr>alive_at_entry = True, readline = Line line, play_position = pos, alive_at_exit = True\<rparr>"

definition idle_session :: globals where
  "idle_session = fresh_window\<lparr>g_speech_started := False, g_utterance_start_pos := 0\<rparr>"

definition interval_set :: "globals \<Rightarrow> bool" where
  \<comment> \<open>Whenever a process is set, the commit interval is at least 1.\<close>
  "interval_set g = (g_process g = None \<or> 1 \<le> g_commit_interval g)"

section \<open>Facts about the text functions\<close>

lemma escapes_complete_suffix: "escapes_complete (p @ r) \<Longrightarrow> escapes_complete r"
  by (induction p) auto

lemma no_match_plain:
  "c \<noteq> CR \<Longrightarrow> c \<noteq> ESC \<Longrightarrow> rmatch ansi_pattern (c # cs) = []"
  by (simp add: ansi_pattern_def)

lemma match_CR: "rmatch ansi_pattern (CR # cs) \<noteq> []"
  by (simp add: ansi_pattern_def)

lemma strip_ansi_codes_plain:
  "ESC \<notin> set y \<Longrightarrow> CR \<notin> set y \<Longrightarrow> strip_ansi_codes y = y"
  by (induction y) (auto simp: no_match_plain)

lemma strip_ansi_codes_no_CR: "CR \<notin> set (strip_ansi_codes x)"
proof (induction x rule: strip_ansi_codes.induct)
  case 1
  then show ?case by simp
next
  case (2 c cs)
  show ?case
  proof (cases "rmatch ansi_pattern (c # cs)")
    case Nil
    then have "c \<noteq> CR" using match_CR by auto
    with Nil 2(1) show ?thesis by simp
  next
    case (Cons r rs)
    with 2(2) show ?thesis by simp
  qed
qed

lemma strip_ansi_codes_no_ESC:
  "escapes_complete x \<Longrightarrow> ESC \<notin> set (strip_ansi_codes x)"
proof (induction x rule: strip_ansi_codes.induct)
  case 1
  then show ?case by simp
next
  case (2 c cs)
  show ?case
  proof (cases "rmatch ansi_pattern (c # cs)")
    case Nil
    with 2(3) have "c \<noteq> ESC" and "escapes_complete cs" by auto
    with Nil 2(1) show ?thesis by simp
  next
    case (Cons r rs)
    then have "r \<in> set (rmatch ansi_pattern (c # cs))" by simp
    then obtain p where "c # cs = p @ r" using rmatch_suffix by blast
    with 2(3) have "escapes_complete r" using escapes_complete_suffix by metis
    with Cons 2(2) show ?thesis by simp
  qed
qed

lemma dropWhile_front_kept:
  assumes "t = dropWhile P s"
  shows "dropWhile P (rev (dropWhile P (rev t))) = rev (dropWhile P (rev t))"
proof (cases "rev (dropWhile P (rev t))")
  case Nil
  then show ?thesis by (simp only: dropWhile.simps)
next
  case (Cons a u)
  have "rev t = takeWhile P (rev t) @ dropWhile P (rev t)" by simp
  then have "t = rev (dropWhile P (rev t)) @ rev (takeWhile P (rev t))"
    by (metis rev_append rev_rev_ident)
  with Cons have "t = (a # u) @ rev (takeWhile P (rev t))" by (simp only:)
  then obtain w where t: "t = a # w" by (metis append_Cons)
  then have "t \<noteq> []" by blast
  with assms have "\<not> P (hd t)" by (metis hd_dropWhile)
  with t have "\<not> P a" by (metis list.sel(1))
  with Cons show ?thesis by simp
qed

lemma strip_idem: "strip (strip s) = strip s"
proof -
  have "dropWhile is_space (strip s) = strip s"
    unfolding strip_def by (rule dropWhile_front_kept) simp
  then have "strip (strip s) = rev (dropWhile is_space (rev (strip s)))"
    by (simp add: strip_def)
  also have "\<dots> = strip s"
    by (simp add: strip_def)
  finally show ?thesis .
qed

lemma add_marker_clean_line:
  "clean_line line \<noteq> [] \<Longrightarrow>
   add_marker (clean_line line) p = [AddProjectMarker2 p (clean_line line)]"
  by (simp add: add_marker_def clean_line_def strip_idem)

section \<open>Facts about the steps\<close>

lemma poll_keeps_commit_interval:
  "poll_whisper_output t g = Inr (g1, out) \<Longrightarrow> g_commit_interval g1 = g_commit_interval g"
  by (auto simp: poll_whisper_output_def process_line_def Let_def
      split: if_splits read_result.splits sum.splits flow.splits prod.splits)

lemma stop_keeps_commit_interval:
  "g_commit_interval (fst (stop_process alive g)) = g_commit_interval g"
  by (simp add: stop_process_def split: option.splits)

lemma start_sets_commit_interval:
  assumes "in_reaper env" and "g_process g = None \<or> \<not> process_alive env"
  shows "g_commit_interval (fst (start_process cfg env g))
           = commit_interval (LENGTH_MS cfg) (STEP_MS cfg)"
  using assms
  by (auto simp: start_process_def Let_def dest!: poll_keeps_commit_interval
      split: sum.splits option.splits prod.splits)

lemma accepted_step:
  assumes "g_speech_started g" and "g_commit_interval g \<noteq> 0" and "accepted line"
  shows "process_line pos line g =
     Inr (FellThrough,
          g\<lparr>g_iter_count := (g_iter_count g + 1) mod g_commit_interval g,
            g_utterance_start_pos :=
              (if (g_iter_count g + 1) mod g_commit_interval g = 0 then pos
               else g_utterance_start_pos g)\<rparr>,
          (if (g_iter_count g + 1) mod g_commit_interval g = 0
           then [AddProjectMarker2 (g_utterance_start_pos g) (clean_line line)] else []))"
  using assms
  by (simp add: process_line_def accepted_def Let_def add_marker_clean_line)

lemma wrap_count:
  fixes c n ci :: int
  assumes "0 < ci" "0 \<le> c" "c < ci" "0 \<le> n"
  shows "(if (c + 1) mod ci = 0 then 1 else 0) + ((c + 1) mod ci + n) div ci = (c + (1 + n)) div ci"
proof (cases "c + 1 = ci")
  case True
  then have "(c + 1) mod ci = 0" by simp
  moreover have "c + (1 + n) = ci + n" using True by linarith
  then have "(c + (1 + n)) div ci = (ci + n) div ci" by (simp only:)
  moreover have "(ci + n) div ci = 1 + n div ci" using assms(1) by simp
  ultimately show ?thesis by simp
next
  case False
  with assms have "(c + 1) mod ci = c + 1" by simp
  moreover from assms have "c + 1 \<noteq> 0" by simp
  ultimately show ?thesis by (simp add: add.assoc)
qed

lemma feed_accepted_lines:
  assumes "g_speech_started g" and "0 < g_commit_interval g"
    and "0 \<le> g_iter_count g" and "g_iter_count g < g_commit_interval g"
    and "\<forall>(pos, line) \<in> set ticks. accepted line"
  shows "\<exists>g1 out. feed_lines ticks g = Inr (g1, out)
     \<and> g_speech_started g1 \<and> g_commit_interval g1 = g_commit_interval g
     \<and> g_iter_count g1 = (g_iter_count g + int (length ticks)) mod g_commit_interval g
     \<and> int (length (markers out)) = (g_iter_count g + int (length ticks)) div g_commit_interval g"
  using assms
proof (induction ticks arbitrary: g)
  case Nil
  then show ?case by (simp add: markers_def)
next
  case (Cons tk rest)
  obtain pos line where tk: "tk = (pos, line)" by (cases tk)
  let ?ci = "g_commit_interval g"
  let ?c1 = "(g_iter_count g + 1) mod ?ci"
  define g1 where "g1 = g\<lparr>g_iter_count := ?c1,
            g_utterance_start_pos := (if ?c1 = 0 then pos else g_utterance_start_pos g)\<rparr>"
  define out1 where "out1 = (if ?c1 = 0
           then [AddProjectMarker2 (g_utterance_start_pos g) (clean_line line)] else [])"
  from Cons.prems tk have acc: "accepted line" by simp
  from Cons.prems have nz: "?ci \<noteq> 0" by simp
  have step: "process_line pos line g = Inr (FellThrough, g1, out1)"
    unfolding g1_def out1_def using accepted_step[OF Cons.prems(1) nz acc] by simp
  have g1s: "g_speech_started g1" and g1ci: "g_commit_interval g1 = ?ci"
    and g1c: "g_iter_count g1 = ?c1"
    using Cons.prems(1) by (simp_all add: g1_def)
  have r0: "0 \<le> g_iter_count g1" and r1: "g_iter_count g1 < g_commit_interval g1"
    using Cons.prems(2) by (simp_all add: g1c g1ci)
  have rest: "\<forall>(pos, line) \<in> set rest. accepted line" using Cons.prems(5) by simp
  from Cons.IH[OF g1s _ r0 r1 rest] Cons.prems(2) g1ci
  obtain g2 out2 where f: "feed_lines rest g1 = Inr (g2, out2)"
    and s2: "g_speech_started g2" and ci2: "g_commit_interval g2 = ?ci"
    and c2: "g_iter_count g2 = (?c1 + int (length rest)) mod ?ci"
    and m2: "int (length (markers out2)) = (?c1 + int (length rest)) div ?ci"
    by (auto simp: g1c)
  have whole: "feed_lines (tk # rest) g = Inr (g2, out1 @ out2)"
    by (simp add: tk step f)
  have cnt: "g_iter_count g2 = (g_iter_count g + int (length (tk # rest))) mod ?ci"
    by (simp add: c2 mod_add_left_eq add.assoc)
  have m1: "int (length (markers out1)) = (if ?c1 = 0 then 1 else 0)"
    by (simp add: out1_def markers_def)
  have "int (length (markers (out1 @ out2)))
          = (if ?c1 = 0 then 1 else 0) + (?c1 + int (length rest)) div ?ci"
    using m1 m2 by (simp add: markers_def)
  also have "\<dots> = (g_iter_count g + (1 + int (length rest))) div ?ci"
    using Cons.prems(2,3,4) by (intro wrap_count) simp_all
  finally have mk: "int (length (markers (out1 @ out2)))
          = (g_iter_count g + int (length (tk # rest))) div ?ci"
    by simp
  from whole s2 ci2 cnt mk show ?case by blast
qed

lemma markers_append: "markers (a @ b) = markers a @ markers b"
  by (simp add: markers_def)

lemma window_opened:
  assumes "process_line pos0 line0 g0 = Inr (f0, g, out0)"
    and "(\<not> g_speech_started g0 \<and> g_speech_started g) \<or> markers out0 \<noteq> []"
  shows "g_speech_started g \<and> g_utterance_start_pos g = pos0"
  using assms
  by (auto simp: process_line_def Let_def markers_def log_def split: if_splits)

lemma committed_at_anchor:
  assumes "process_line pos line g1 = Inr (f, g2, out2)" and "markers out2 \<noteq> []"
    and "g_speech_started g1"
  shows "markers out2 = [AddProjectMarker2 (g_utterance_start_pos g1) (clean_line line)]
         \<and> g_utterance_start_pos g2 = pos"
  using assms
  by (auto simp: process_line_def Let_def markers_def add_marker_clean_line split: if_splits)

lemma anchor_kept_without_marker:
  assumes "process_line pos line g = Inr (f, g1, out)" and "markers out = []"
    and "g_speech_started g"
  shows "g_speech_started g1 \<and> g_utterance_start_pos g1 = g_utterance_start_pos g"
  using assms
  by (auto simp: process_line_def Let_def markers_def add_marker_clean_line split: if_splits)

lemma anchor_kept_over_lines:
  assumes "feed_lines ticks g = Inr (g1, out)" and "markers out = []"
    and "g_speech_started g"
  shows "g_speech_started g1 \<and> g_utterance_start_pos g1 = g_utterance_start_pos g"
  using assms
proof (induction ticks arbitrary: g out)
  case Nil
  then show ?case by simp
next
  case (Cons tk rest)
  obtain pos line where tk: "tk = (pos, line)" by (cases tk)
  from Cons.prems(1) tk obtain f ga outa outb
    where a: "process_line pos line g = Inr (f, ga, outa)"
      and b: "feed_lines rest ga = Inr (g1, outb)"
      and o: "out = outa @ outb"
    by (auto split: sum.splits prod.splits)
  from Cons.prems(2) o have ma: "markers outa = []" and mb: "markers outb = []"
    by (simp_all add: markers_append)
  from anchor_kept_without_marker[OF a ma Cons.prems(3)]
  have sa: "g_speech_started ga" and pa: "g_utterance_start_pos ga = g_utterance_start_pos g"
    by simp_all
  from Cons.IH[OF b mb sa] pa show ?case by simp
qed

lemma commit_interval_pos: "1 \<le> commit_interval l s"
  by (simp add: commit_interval_def)

lemma poll_keeps_process:
  "poll_whisper_output t g = Inr (g1, out) \<Longrightarrow> g_process g1 = g_process g"
  by (auto simp: poll_whisper_output_def process_line_def Let_def
      split: if_splits read_result.splits sum.splits flow.splits prod.splits)

lemma process_line_returns:
  "g_commit_interval g \<noteq> 0 \<Longrightarrow> \<exists>f g1 out. process_line pos line g = Inr (f, g1, out)"
  by (simp add: process_line_def Let_def)

lemma poll_never_raises:
  assumes "interval_set g"
  shows "\<exists>g1 out. poll_whisper_output t g = Inr (g1, out)"
proof (cases "g_process g = None \<or> \<not> alive_at_entry t")
  case True
  then show ?thesis by (simp add: poll_whisper_output_def)
next
  case False
  with assms have nz: "g_commit_interval g \<noteq> 0" by (auto simp: interval_set_def)
  show ?thesis
  proof (cases "readline t")
    case RaisesIOError
    with False show ?thesis by (simp add: poll_whisper_output_def)
  next
    case (Line line)
    from process_line_returns[OF nz, of "play_position t" line]
    obtain f g1 out where "process_line (play_position t) line g = Inr (f, g1, out)"
      by blast
    with False Line show ?thesis
      by (cases f) (simp_all add: poll_whisper_output_def)
  qed
qed

lemma interval_set_poll:
  "interval_set g \<Longrightarrow> poll_whisper_output t g = Inr (g1, out) \<Longrightarrow> interval_set g1"
  using poll_keeps_process[of t g g1 out] poll_keeps_commit_interval[of t g g1 out]
  by (simp add: interval_set_def)

lemma interval_set_stop: "interval_set g \<Longrightarrow> interval_set (fst (stop_process alive g))"
  by (auto simp: interval_set_def stop_process_def split: option.splits)

lemma start_process_declined:
  "\<not> in_reaper env \<or> (g_process g \<noteq> None \<and> process_alive env) \<Longrightarrow>
   start_process cfg env g = (g, [])"
  by (auto simp: start_process_def)

lemma interval_set_start: "interval_set g \<Longrightarrow> interval_set (fst (start_process cfg env g))"
proof (cases "in_reaper env \<and> (g_process g = None \<or> \<not> process_alive env)")
  case True
  then have "g_commit_interval (fst (start_process cfg env g))
               = commit_interval (LENGTH_MS cfg) (STEP_MS cfg)"
    by (intro start_sets_commit_interval) simp_all
  with commit_interval_pos[of "LENGTH_MS cfg" "STEP_MS cfg"] show ?thesis
    by (simp add: interval_set_def)
next
  case False
  assume "interval_set g"
  moreover from False have "start_process cfg env g = (g, [])"
    by (intro start_process_declined) auto
  ultimately show ?thesis by simp
qed

lemma interval_set_check:
  "interval_set g \<Longrightarrow> interval_set (fst (check_recording_state cfg env g))"
proof -
  assume i: "interval_set g"
  have a: "interval_set (g\<lparr>g_is_recording := b\<rparr>)" for b
    using i by (simp add: interval_set_def)
  have s: "interval_set x"
    if "start_process cfg (on_start env) (g\<lparr>g_is_recording := True\<rparr>) = (x, y)" for x y
    using interval_set_start[OF a, of cfg "on_start env" True] that by simp
  have t: "interval_set x"
    if "stop_process (alive_on_stop env) (g\<lparr>g_is_recording := False\<rparr>) = (x, y)" for x y
    using interval_set_stop[OF a, of "alive_on_stop env" False] that by simp
  from s t i show ?thesis
    by (auto simp: check_recording_state_def Let_def split: prod.splits)
qed

lemma interval_set_atexit: "interval_set g \<Longrightarrow> interval_set (fst (reaper_atexit alive g))"
  using interval_set_stop[of g alive]
  by (auto simp: reaper_atexit_def split: prod.splits)

lemma reachable_interval_set: "reachable cfg g \<Longrightarrow> interval_set g"
proof (induction rule: reachable.induct)
  case init
  show ?case by (simp add: interval_set_def initial_globals_def)
next
  case (check g env)
  then show ?case by (simp add: interval_set_check)
next
  case (poll g t g1 out)
  then show ?case by (blast intro: interval_set_poll)
next
  case (atexit g alive)
  then show ?case by (simp add: interval_set_atexit)
qed

lemma session_started_run:
  "fst (check_recording_state home_config record_env initial_globals) = session_started"
  by (simp add: check_recording_state_def start_process_def record_env_def booting_env_def
      initial_globals_def home_config_def source_config_def commit_interval_def
      poll_whisper_output_def quiet_tick_def rearm_def session_started_def Let_def)

lemma speech_start_run:
  "poll_whisper_output (line_tick 2 (''[Start speaking]'' @ [LF])) session_started
     = Inr (session_started\<lparr>g_speech_started := True, g_utterance_start_pos := 2\<rparr>,
            log ''Speech detected. Marker creation enabled.'' @ [Defer ''poll_whisper_output()''])"
  by code_simp

lemma hello_run:
  "poll_whisper_output (line_tick 3 ('' hello'' @ [LF]))
       (session_started\<lparr>g_speech_started := True, g_utterance_start_pos := 2\<rparr>)
     = Inr (listening, [Defer ''poll_whisper_output()''])"
  by code_simp

lemma listening_reachable: "reachable home_config listening"
proof -
  have "reachable home_config (fst (check_recording_state home_config record_env initial_globals))"
    by (rule reachable.check[OF reachable.init])
  then have "reachable home_config session_started"
    by (simp add: session_started_run)
  then have "reachable home_config (session_started\<lparr>g_speech_started := True, g_utterance_start_pos := 2\<rparr>)"
    by (rule reachable.poll[OF _ speech_start_run])
  then show ?thesis
    by (rule reachable.poll[OF _ hello_run])
qed

section \<open>The sanitizer\<close>

text \<open>
  C5 as the specification states it: cleaning twice gives the same text as cleaning once,
  for every input. The substitution makes one pass, and deleting a match can join the
  characters around it into a new escape sequence: in ESC CR \<open>[m\<close> only the carriage
  return matches, and what is left is ESC \<open>[m\<close>, which a second pass deletes.
\<close>

theorem strip_twice_counterexample:
  "strip_ansi_codes (strip_ansi_codes [ESC, CR, CHR ''['', CHR ''m''])
     \<noteq> strip_ansi_codes [ESC, CR, CHR ''['', CHR ''m'']"
  by code_simp

text \<open>
  C5, amended: cleaning twice gives the same text as cleaning once for every input in
  which each ESC character begins an escape sequence of the pattern; this includes every
  input without an ESC character.
\<close>

theorem strip_twice_when_escapes_complete:
  assumes "escapes_complete x"
  shows "strip_ansi_codes (strip_ansi_codes x) = strip_ansi_codes x"
  using assms strip_ansi_codes_no_ESC strip_ansi_codes_no_CR strip_ansi_codes_plain by blast

theorem strip_twice_when_escapes_complete_witness:
  "escapes_complete coloured_line
   \<and> strip_ansi_codes coloured_line = '' hello world'' @ [LF]
   \<and> strip_ansi_codes (strip_ansi_codes coloured_line) = strip_ansi_codes coloured_line"
proof -
  have h: "escapes_complete coloured_line" by code_simp
  have v: "strip_ansi_codes coloured_line = '' hello world'' @ [LF]" by code_simp
  from h v strip_twice_when_escapes_complete[OF h] show ?thesis by simp
qed

section \<open>Lines before speech, and no-speech lines\<close>

text \<open>
  C8: before speech has started, a line whose cleaned text does not contain
  \<open>[Start speaking]\<close> produces no marker and leaves every global as it was.
\<close>

theorem idle_line_ignored:
  assumes "\<not> g_speech_started g"
    and "\<not> contains ''[Start speaking]'' (clean_line line)"
  shows "process_line pos line g = Inr (FellThrough, g, [])"
  using assms by (simp add: process_line_def)

theorem idle_line_ignored_witness:
  "\<not> g_speech_started initial_globals
   \<and> \<not> contains ''[Start speaking]'' (clean_line ''whisper_init_from_file: loading model'')
   \<and> process_line 3 ''whisper_init_from_file: loading model'' initial_globals
       = Inr (FellThrough, initial_globals, [])"
proof -
  have h1: "\<not> g_speech_started initial_globals"
    by (simp add: initial_globals_def)
  have h2: "\<not> contains ''[Start speaking]'' (clean_line ''whisper_init_from_file: loading model'')"
    by code_simp
  from idle_line_ignored[OF h1 h2, of 3] h1 h2 show ?thesis by simp
qed

text \<open>
  C6: once speech has started, a line whose cleaned text, upper-cased, is one of the
  no-speech sentinels leaves the iteration count and the anchor position (indeed every
  global) unchanged and produces no marker.
\<close>

theorem no_speech_line_discarded:
  assumes "g_speech_started g"
    and "upper (clean_line line) \<in> set no_speech_sentinels"
  shows "process_line pos line g = Inr (Returned, g, [])"
proof -
  from assms(2) have "clean_line line \<noteq> []"
    by (auto simp: no_speech_sentinels_def upper_def)
  with assms show ?thesis by (simp add: process_line_def)
qed

theorem no_speech_line_discarded_witness:
  "g_speech_started accumulating
   \<and> upper (clean_line blank_audio_line) \<in> set no_speech_sentinels
   \<and> process_line 9 blank_audio_line accumulating = Inr (Returned, accumulating, [])"
proof -
  have h1: "g_speech_started accumulating"
    by (simp add: accumulating_def)
  have h2: "upper (clean_line blank_audio_line) \<in> set no_speech_sentinels"
    by code_simp
  from no_speech_line_discarded[OF h1 h2, of 9] h1 h2 show ?thesis by simp
qed

section \<open>The commit interval\<close>

text \<open>
  C7: a start that goes ahead sets the commit interval to
  \<open>max(1, LENGTH_MS // STEP_MS - 1)\<close> when the step is positive and to 9 when the step is
  zero; the script's own constants give 9. The interval then stays as it is: a poll of
  the started session keeps it, and so does the recording-state check of a session
  that is recording.
\<close>

theorem commit_interval_set_at_start:
  assumes "in_reaper env" and "g_process g = None \<or> \<not> process_alive env"
  shows "(0 < STEP_MS cfg \<longrightarrow>
            g_commit_interval (fst (start_process cfg env g))
              = max 1 (LENGTH_MS cfg div STEP_MS cfg - 1))
       \<and> (STEP_MS cfg = 0 \<longrightarrow> g_commit_interval (fst (start_process cfg env g)) = 9)
       \<and> commit_interval 10000 1000 = 9
       \<and> (\<forall>t g1 out. poll_whisper_output t (fst (start_process cfg env g)) = Inr (g1, out) \<longrightarrow>
             g_commit_interval g1 = g_commit_interval (fst (start_process cfg env g)))
       \<and> (\<forall>e. g_is_recording g0 \<longrightarrow>
             g_commit_interval (fst (check_recording_state cfg e g0)) = g_commit_interval g0)"
proof -
  have a: "g_commit_interval (fst (start_process cfg env g))
             = commit_interval (LENGTH_MS cfg) (STEP_MS cfg)"
    using assms by (rule start_sets_commit_interval)
  have b: "commit_interval 10000 1000 = 9"
    by (simp add: commit_interval_def)
  have c: "g_commit_interval (fst (check_recording_state cfg e g0)) = g_commit_interval g0"
    if "g_is_recording g0" for e
    using that stop_keeps_commit_interval[of "alive_on_stop e" "g0\<lparr>g_is_recording := False\<rparr>"]
    by (auto simp: check_recording_state_def Let_def split: prod.splits)
  from a b c show ?thesis
    by (auto simp: commit_interval_def dest: poll_keeps_commit_interval)
qed

theorem commit_interval_set_at_start_witness:
  "in_reaper booting_env
   \<and> (g_process initial_globals = None \<or> \<not> process_alive booting_env)
   \<and> 0 < STEP_MS (source_config ''/home/u'')
   \<and> g_commit_interval (fst (start_process (source_config ''/home/u'') booting_env initial_globals)) = 9
   \<and> STEP_MS zero_step_config = 0
   \<and> g_commit_interval (fst (start_process zero_step_config booting_env initial_globals)) = 9
   \<and> g_is_recording accumulating
   \<and> g_commit_interval (fst (check_recording_state zero_step_config
         \<lparr>play_state = 5, on_start = booting_env, alive_on_stop = True\<rparr> accumulating)) = 3"
proof -
  have h1: "in_reaper booting_env"
    by (simp add: booting_env_def)
  have h2: "g_process initial_globals = None \<or> \<not> process_alive booting_env"
    by (simp add: initial_globals_def)
  have s1: "0 < STEP_MS (source_config ''/home/u'')"
    and l1: "LENGTH_MS (source_config ''/home/u'') = 10000"
    and s1v: "STEP_MS (source_config ''/home/u'') = 1000"
    by (simp_all add: source_config_def)
  have s0: "STEP_MS zero_step_config = 0"
    by (simp add: zero_step_config_def)
  have r: "g_is_recording accumulating" and ci: "g_commit_interval accumulating = 3"
    by (simp_all add: accumulating_def)
  from commit_interval_set_at_start[OF h1 h2, of "source_config ''/home/u''" accumulating] s1
  have a: "g_commit_interval (fst (start_process (source_config ''/home/u'') booting_env initial_globals)) = 9"
    by (simp add: l1 s1v)
  from commit_interval_set_at_start[OF h1 h2, of zero_step_config accumulating] s0 r ci
  have b: "g_commit_interval (fst (start_process zero_step_config booting_env initial_globals)) = 9"
    and c: "g_commit_interval (fst (check_recording_state zero_step_config
         \<lparr>play_state = 5, on_start = booting_env, alive_on_stop = True\<rparr> accumulating)) = 3"
    by simp_all
  from h1 h2 s1 a s0 b r c show ?thesis by simp
qed

section \<open>Stopping\<close>

text \<open>
  C9: \<open>stop_process\<close> sends the termination signal exactly when a process is set and
  still alive. When no process is set, or the process has exited, the call changes no
  global and has no effect on the host, so a second call after any first call does
  nothing (an exited process does not come back to life, hence \<open>alive2 \<longrightarrow> alive\<close>). No
  path through \<open>stop_process\<close>, \<open>__reaper_atexit\<close> or the record-stop branch of
  \<open>check_recording_state\<close> adds a marker, so a window that was only partly filled is
  dropped.
\<close>

theorem stop_process_safe:
  assumes "alive2 \<longrightarrow> alive"
  shows "(g_process g = None \<or> \<not> alive \<longrightarrow> stop_process alive g = (g, unbound, []))
       \<and> ((\<exists>pid. Terminate pid \<in> set (snd (snd (stop_process alive g))))
            \<longleftrightarrow> g_process g \<noteq> None \<and> alive)
       \<and> stop_process alive2 (fst (stop_process alive g))
            = (fst (stop_process alive g), unbound, [])
       \<and> markers (snd (snd (stop_process alive g))) = []
       \<and> markers (snd (reaper_atexit alive g)) = []
       \<and> (g_is_recording g \<and> play_state e AND 4 = 0 \<longrightarrow>
            markers (snd (check_recording_state cfg e g)) = [])"
  using assms
  by (auto simp: stop_process_def reaper_atexit_def check_recording_state_def markers_def
      log_def Let_def split: option.splits prod.splits)

theorem stop_process_safe_witness:
  "g_process accumulating \<noteq> None
   \<and> Terminate 77 \<in> set (snd (snd (stop_process True accumulating)))
   \<and> g_process (fst (stop_process True accumulating)) = None
   \<and> stop_process False (fst (stop_process True accumulating))
        = (fst (stop_process True accumulating), unbound, [])
   \<and> stop_process False accumulating = (accumulating, unbound, [])
   \<and> g_is_recording accumulating \<and> play_state stop_env AND 4 = 0
   \<and> markers (snd (check_recording_state zero_step_config stop_env accumulating)) = []"
proof -
  have h: "False \<longrightarrow> True" by simp
  have p: "g_process accumulating \<noteq> None" and r: "g_is_recording accumulating"
    by (simp_all add: accumulating_def)
  have q: "play_state stop_env AND 4 = 0"
    by (simp add: stop_env_def)
  have t: "Terminate 77 \<in> set (snd (snd (stop_process True accumulating)))"
    and n: "g_process (fst (stop_process True accumulating)) = None"
    by (simp_all add: stop_process_def accumulating_def log_def)
  from stop_process_safe[OF h, of accumulating stop_env zero_step_config] r q
  have a: "stop_process False (fst (stop_process True accumulating))
        = (fst (stop_process True accumulating), unbound, [])"
    and b: "markers (snd (check_recording_state zero_step_config stop_env accumulating)) = []"
    by simp_all
  have h': "False \<longrightarrow> False" by simp
  from stop_process_safe[OF h', of accumulating stop_env zero_step_config]
  have c: "stop_process False accumulating = (accumulating, unbound, [])"
    by simp
  from p t n a c r q b show ?thesis by simp
qed

section \<open>Counting lines into markers\<close>

text \<open>
  C1: once speech has started, with a positive commit interval and the counter within
  \<open>[0, g_commit_interval)\<close>, feeding any sequence of lines that are neither empty nor
  discarded succeeds; the counter ends at (count + number of lines) modulo the interval
  and stays within \<open>[0, g_commit_interval)\<close>; the number of markers added is
  (count + number of lines) divided by the interval, so exactly one marker for every
  \<open>g_commit_interval\<close> lines; and a single line adds a marker exactly when it wraps the
  counter to zero.
\<close>

theorem one_commit_per_interval:
  assumes "g_speech_started g" and "0 < g_commit_interval g"
    and "0 \<le> g_iter_count g" and "g_iter_count g < g_commit_interval g"
    and "\<forall>(pos, line) \<in> set ticks. accepted line"
  shows "\<exists>g1 out. feed_lines ticks g = Inr (g1, out)
     \<and> g_iter_count g1 = (g_iter_count g + int (length ticks)) mod g_commit_interval g
     \<and> 0 \<le> g_iter_count g1 \<and> g_iter_count g1 < g_commit_interval g
     \<and> int (length (markers out)) = (g_iter_count g + int (length ticks)) div g_commit_interval g
     \<and> (int (length ticks) = g_commit_interval g \<longrightarrow> length (markers out) = 1)
     \<and> (length ticks = 1 \<longrightarrow> (markers out \<noteq> [] \<longleftrightarrow> g_iter_count g1 = 0))"
proof -
  let ?ci = "g_commit_interval g"
  let ?n = "int (length ticks)"
  from feed_accepted_lines[OF assms] obtain g1 out
    where f: "feed_lines ticks g = Inr (g1, out)"
      and c: "g_iter_count g1 = (g_iter_count g + ?n) mod ?ci"
      and m: "int (length (markers out)) = (g_iter_count g + ?n) div ?ci"
    by blast
  have lo: "0 \<le> g_iter_count g1" and hi: "g_iter_count g1 < ?ci"
    using assms(2) by (simp_all add: c)
  have one: "length (markers out) = 1" if "?n = ?ci"
  proof -
    have "(g_iter_count g + ?ci) div ?ci = 1"
      using assms(2,3,4) by (simp add: div_pos_pos_trivial)
    with m that show ?thesis by simp
  qed
  have single: "markers out \<noteq> [] \<longleftrightarrow> g_iter_count g1 = 0" if "length ticks = 1"
  proof -
    from that have n1: "?n = 1" by simp
    show ?thesis
    proof (cases "g_iter_count g + 1 = ?ci")
      case True
      then have "(g_iter_count g + 1) div ?ci = 1" "(g_iter_count g + 1) mod ?ci = 0"
        using assms(2) by simp_all
      with m c n1 show ?thesis by auto
    next
      case False
      with assms have "(g_iter_count g + 1) div ?ci = 0" "(g_iter_count g + 1) mod ?ci = g_iter_count g + 1"
        by (simp_all add: div_pos_pos_trivial)
      with m c n1 assms(3) show ?thesis by auto
    qed
  qed
  from f c lo hi m one single show ?thesis by blast
qed

theorem one_commit_per_interval_witness:
  "g_speech_started fresh_window \<and> 0 < g_commit_interval fresh_window
   \<and> 0 \<le> g_iter_count fresh_window \<and> g_iter_count fresh_window < g_commit_interval fresh_window
   \<and> accepted (''hello'' @ [LF]) \<and> accepted (''hello world'' @ [LF])
   \<and> accepted (''hello world, friend'' @ [LF])
   \<and> (\<exists>g1 out. feed_lines three_lines fresh_window = Inr (g1, out)
         \<and> g_iter_count g1 = 0 \<and> length (markers out) = 1)"
proof -
  have a: "accepted (''hello'' @ [LF])" "accepted (''hello world'' @ [LF])"
    "accepted (''hello world, friend'' @ [LF])"
    by code_simp+
  have h1: "g_speech_started fresh_window"
    and h2: "0 < g_commit_interval fresh_window"
    and h3: "0 \<le> g_iter_count fresh_window"
    and h4: "g_iter_count fresh_window < g_commit_interval fresh_window"
    by (simp_all add: fresh_window_def accumulating_def)
  have h5: "\<forall>(pos, line) \<in> set three_lines. accepted line"
    using a by (simp add: three_lines_def)
  have v: "g_commit_interval fresh_window = 3" "g_iter_count fresh_window = 0"
    "int (length three_lines) = 3"
    by (simp_all add: fresh_window_def accumulating_def three_lines_def)
  from one_commit_per_interval[OF h1 h2 h3 h4 h5]
  have "\<exists>g1 out. feed_lines three_lines fresh_window = Inr (g1, out)
         \<and> g_iter_count g1 = 0 \<and> length (markers out) = 1"
    by (auto simp: v)
  with h1 h2 h3 h4 a show ?thesis by blast
qed

section \<open>Where a marker is placed\<close>

text \<open>
  C2: take a call that opens a buffer window at play position \<open>pos0\<close>, either the
  speech-start transition or a commit; then any lines that add no marker; then a line
  that adds one, read at play position \<open>pos\<close>. The marker is placed at \<open>pos0\<close>, the
  anchor recorded when the window opened, whatever \<open>pos\<close> is, and after the commit the
  anchor is \<open>pos\<close>.
\<close>

theorem marker_at_window_start:
  assumes "process_line pos0 line0 g0 = Inr (f0, g, out0)"
    and "(\<not> g_speech_started g0 \<and> g_speech_started g) \<or> markers out0 \<noteq> []"
    and "feed_lines ticks g = Inr (g1, out1)" and "markers out1 = []"
    and "process_line pos line g1 = Inr (f, g2, out2)" and "markers out2 \<noteq> []"
  shows "markers out2 = [AddProjectMarker2 pos0 (clean_line line)]
         \<and> g_utterance_start_pos g2 = pos"
proof -
  from window_opened[OF assms(1,2)]
  have s: "g_speech_started g" and p: "g_utterance_start_pos g = pos0" by simp_all
  from anchor_kept_over_lines[OF assms(3,4) s] p
  have s1: "g_speech_started g1" and p1: "g_utterance_start_pos g1 = pos0" by simp_all
  from committed_at_anchor[OF assms(5,6) s1] p1 show ?thesis by simp
qed

theorem marker_at_window_start_witness:
  "process_line 4 (''[Start speaking]'' @ [LF]) idle_session
     = Inr (FellThrough, fresh_window, log ''Speech detected. Marker creation enabled.'')
   \<and> \<not> g_speech_started idle_session \<and> g_speech_started fresh_window
   \<and> feed_lines [(5, ''hello'' @ [LF]), (6, ''hello world'' @ [LF])] fresh_window
       = Inr (accumulating, [])
   \<and> process_line 7 (''hello world, friend'' @ [LF]) accumulating
       = Inr (FellThrough, accumulating\<lparr>g_iter_count := 0, g_utterance_start_pos := 7\<rparr>,
              [AddProjectMarker2 4 ''hello world, friend''])"
proof -
  have h1: "process_line 4 (''[Start speaking]'' @ [LF]) idle_session
     = Inr (FellThrough, fresh_window, log ''Speech detected. Marker creation enabled.'')"
    by code_simp
  have h2: "(\<not> g_speech_started idle_session \<and> g_speech_started fresh_window)
             \<or> markers (log ''Speech detected. Marker creation enabled.'') \<noteq> []"
    by code_simp
  have h3: "feed_lines [(5, ''hello'' @ [LF]), (6, ''hello world'' @ [LF])] fresh_window
       = Inr (accumulating, [])"
    by code_simp
  have h4: "markers [] = []" by (simp add: markers_def)
  have h5: "process_line 7 (''hello world, friend'' @ [LF]) accumulating
       = Inr (FellThrough, accumulating\<lparr>g_iter_count := 0, g_utterance_start_pos := 7\<rparr>,
              [AddProjectMarker2 4 ''hello world, friend''])"
    by code_simp
  have h6: "markers [AddProjectMarker2 4 ''hello world, friend''] \<noteq> []"
    by (simp add: markers_def)
  have s: "\<not> g_speech_started idle_session" "g_speech_started fresh_window"
    by (simp_all add: idle_session_def fresh_window_def accumulating_def)
  from marker_at_window_start[OF h1 h2 h3 h4 h5 h6]
  have "markers [AddProjectMarker2 4 ''hello world, friend'']
          = [AddProjectMarker2 4 (clean_line (''hello world, friend'' @ [LF]))]"
    by simp
  with h1 s h3 h5 show ?thesis by simp
qed

section \<open>The divisor of the counter update\<close>

text \<open>
  C10: in every state the script can reach, a set process comes with a commit interval
  of at least 1. So \<open>poll_whisper_output\<close>, which touches the counter only when a
  process is set, always returns and never divides by zero, and a start that leaves a
  process set has made the interval at least 1.
\<close>

theorem modulo_divisor_positive:
  assumes "reachable cfg g"
  shows "(g_process g \<noteq> None \<longrightarrow> 1 \<le> g_commit_interval g)
       \<and> (\<exists>g1 out. poll_whisper_output t g = Inr (g1, out))
       \<and> (g_process g \<noteq> None \<longrightarrow> process_line pos line g \<noteq> Inl ZeroDivisionError)
       \<and> (g_process (fst (start_process cfg env g)) \<noteq> None \<longrightarrow>
            1 \<le> g_commit_interval (fst (start_process cfg env g)))"
proof -
  from assms have i: "interval_set g" by (rule reachable_interval_set)
  have a: "g_process g \<noteq> None \<longrightarrow> 1 \<le> g_commit_interval g"
    using i by (auto simp: interval_set_def)
  have b: "\<exists>g1 out. poll_whisper_output t g = Inr (g1, out)"
    using i by (rule poll_never_raises)
  have c: "g_process g \<noteq> None \<longrightarrow> process_line pos line g \<noteq> Inl ZeroDivisionError"
    using a by (auto simp: process_line_def Let_def)
  have d: "g_process (fst (start_process cfg env g)) \<noteq> None \<longrightarrow>
            1 \<le> g_commit_interval (fst (start_process cfg env g))"
    using interval_set_start[OF i, of cfg env] by (auto simp: interval_set_def)
  from a b c d show ?thesis by blast
qed

theorem modulo_divisor_positive_witness:
  "reachable home_config listening
   \<and> g_process listening \<noteq> None
   \<and> 1 \<le> g_commit_interval listening
   \<and> (\<exists>g1 out. poll_whisper_output (line_tick 4 ('' hello world'' @ [LF])) listening = Inr (g1, out))
   \<and> process_line 4 ('' hello world'' @ [LF]) listening \<noteq> Inl ZeroDivisionError"
proof -
  have r: "reachable home_config listening" by (rule listening_reachable)
  have p: "g_process listening \<noteq> None" by (simp add: listening_def)
  from modulo_divisor_positive[OF r, of "line_tick 4 ('' hello world'' @ [LF])" 4 "'' hello world'' @ [LF]" booting_env] p r
  show ?thesis by simp
qed

section \<open>Re-arming after a no-speech line\<close>

text \<open>
  C3 says that the polling loop re-arms itself after every line while the process is
  alive, no-speech lines included. In the state \<open>listening\<close>, which the script reaches
  from its initial state by a start, the speech-start line and one ordinary line
  (\<open>listening_reachable\<close>), the process is set and alive before and after the call; the poll that reads a
  \<open>[BLANK_AUDIO]\<close> line returns from inside the \<open>try\<close> block and emits nothing, so no
  \<open>Defer\<close>, while the poll that reads an ordinary line re-arms.
\<close>

theorem poll_not_rearmed_after_no_speech_line:
  "g_process listening \<noteq> None
   \<and> alive_at_entry (line_tick 4 blank_audio_line) \<and> alive_at_exit (line_tick 4 blank_audio_line)
   \<and> poll_whisper_output (line_tick 4 blank_audio_line) listening = Inr (listening, [])
   \<and> poll_whisper_output (line_tick 4 ('' hello world'' @ [LF])) listening
       = Inr (listening\<lparr>g_iter_count := 2\<rparr>, [Defer ''poll_whisper_output()''])"
  by code_simp

section \<open>The globals after a stop\<close>

text \<open>
  C4 says that after a stop the globals \<open>g_speech_started\<close>, \<open>g_iter_count\<close> and
  \<open>g_utterance_start_pos\<close> are back at their defaults. Stopping the session \<open>listening\<close>,
  directly or through the record-stop branch of \<open>check_recording_state\<close>, clears
  \<open>g_process\<close> only: speech is still marked as started, the count is still 1 and the
  anchor still 2.
\<close>

theorem stop_keeps_session_globals:
  "fst (stop_process True listening) = listening\<lparr>g_process := None\<rparr>
   \<and> g_speech_started (fst (stop_process True listening))
   \<and> g_iter_count (fst (stop_process True listening)) = 1
   \<and> g_utterance_start_pos (fst (stop_process True listening)) = 2
   \<and> fst (check_recording_state home_config stop_env listening)
       = listening\<lparr>g_process := None, g_is_recording := False\<rparr>"
  by code_simp

end
